theory Spec2Isabelle
  imports Main "HOL-Library.Word" "HOL-Library.Sublist"
begin

section \<open>Strings of the host language\<close>

text \<open>
  A string of the program is a sequence of 16-bit code units. The regular expressions of
  \<^verbatim>\<open>parseAbcResponse\<close> carry no \<^verbatim>\<open>u\<close> flag, so they work on code units too.
  \<open>lit\<close> turns an ASCII literal into such a string.
\<close>

type_synonym jschar = "16 word"
type_synonym jsstring = "jschar list"

definition lit :: "string \<Rightarrow> jsstring" where
  "lit s = map of_char s"

definition is_lt :: "jschar \<Rightarrow> bool" where
  \<comment> \<open>the line terminators: LF, CR, LS, PS; \<^verbatim>\<open>.\<close> matches every other code unit, and
      with flag \<^verbatim>\<open>m\<close> the anchors \<^verbatim>\<open>^\<close> and \<^verbatim>\<open>$\<close> match after and before one\<close>
  "is_lt c = (c = 0x0A \<or> c = 0x0D \<or> c = 0x2028 \<or> c = 0x2029)"

definition is_ws :: "jschar \<Rightarrow> bool" where
  \<comment> \<open>the class \<^verbatim>\<open>\s\<close>, which is also what \<^verbatim>\<open>trim\<close> removes: white space and
      line terminators\<close>
  "is_ws c = (c = 0x09 \<or> c = 0x0A \<or> c = 0x0B \<or> c = 0x0C \<or> c = 0x0D \<or> c = 0x20
      \<or> c = 0xA0 \<or> c = 0x1680 \<or> (0x2000 \<le> c \<and> c \<le> 0x200A) \<or> c = 0x2028 \<or> c = 0x2029
      \<or> c = 0x202F \<or> c = 0x205F \<or> c = 0x3000 \<or> c = 0xFEFF)"

definition is_pitch :: "jschar \<Rightarrow> bool" where
  \<comment> \<open>the class \<^verbatim>\<open>[a-gA-G]\<close>\<close>
  "is_pitch c = ((0x61 \<le> c \<and> c \<le> 0x67) \<or> (0x41 \<le> c \<and> c \<le> 0x47))"

abbreviation not_lt :: "jschar \<Rightarrow> bool" where
  "not_lt \<equiv> (\<lambda>c. \<not> is_lt c)"

definition trim :: "jsstring \<Rightarrow> jsstring" where
  "trim s = rev (dropWhile is_ws (rev (dropWhile is_ws s)))"

section \<open>The normalizer: \<^verbatim>\<open>parseAbcResponse\<close>\<close>

subsection \<open>Removing the code fences\<close>

text \<open>
  \<^verbatim>\<open>abcText.replace(/```(abc)?|```/g, '')\<close>: one pass from the left; at three backticks the
  match is taken, with a following \<^verbatim>\<open>abc\<close> when there is one, and the scan goes on
  behind the match.
\<close>

definition fence :: jsstring where
  "fence = [0x60, 0x60, 0x60]"

function strip_fences :: "jsstring \<Rightarrow> jsstring" where
  "strip_fences [] = []"
| "strip_fences (c # cs) =
     (if prefix fence (c # cs) then
        (if prefix (lit ''abc'') (drop 3 (c # cs)) then strip_fences (drop 6 (c # cs))
         else strip_fences (drop 3 (c # cs)))
      else c # strip_fences cs)"
  by pat_completeness auto
termination
  by (relation "measure length") auto

definition clean :: "jsstring \<Rightarrow> jsstring" where
  "clean abcText = trim (strip_fences abcText)"

subsection \<open>Matching at the start of a line\<close>

text \<open>
  With flag \<^verbatim>\<open>m\<close> the anchor \<^verbatim>\<open>^\<close> matches at the start of the text and behind every
  line terminator. The flag \<open>bol\<close> says whether the current position is such a place.
  \<open>find_line_start\<close> gives the text behind the first \<open>tag\<close> that stands at a line start,
  \<open>exists_line_start\<close> says whether the rest of the text at some line start satisfies \<open>Q\<close>.
\<close>

fun find_line_start :: "jsstring \<Rightarrow> bool \<Rightarrow> jsstring \<Rightarrow> jsstring option" where
  "find_line_start tag bol [] = None"
| "find_line_start tag bol (c # cs) =
     (if bol \<and> prefix tag (c # cs) then Some (drop (length tag) (c # cs))
      else find_line_start tag (is_lt c) cs)"

fun exists_line_start :: "(jsstring \<Rightarrow> bool) \<Rightarrow> bool \<Rightarrow> jsstring \<Rightarrow> bool" where
  "exists_line_start Q bol [] = (bol \<and> Q [])"
| "exists_line_start Q bol (c # cs) =
     (if bol \<and> Q (c # cs) then True else exists_line_start Q (is_lt c) cs)"

subsection \<open>The title\<close>

text \<open>
  \<^verbatim>\<open>cleanedAbc.match(/^T:\s*(.*)$/m)\<close>: the first line start with \<^verbatim>\<open>T:\<close>; the greedy
  \<^verbatim>\<open>\s*\<close> takes all white space that follows, line terminators included, the greedy
  group takes the rest of the line reached, and \<^verbatim>\<open>$\<close> holds there, so the first
  attempt succeeds. The result is the group.
\<close>

definition titleMatch :: "jsstring \<Rightarrow> jsstring option" where
  "titleMatch s =
     (case find_line_start (lit ''T:'') True s of
        None \<Rightarrow> None
      | Some r \<Rightarrow> Some (takeWhile not_lt (dropWhile is_ws r)))"

definition default_title :: jsstring where
  "default_title = lit ''Untitled Composition''"

definition with_title :: "jsstring \<Rightarrow> jsstring \<times> jsstring" where
  \<comment> \<open>the title and the text after the title step\<close>
  "with_title cleanedAbc =
     (case titleMatch cleanedAbc of
        None \<Rightarrow> (default_title, lit ''T:Untitled Composition\<newline>'' @ cleanedAbc)
      | Some t \<Rightarrow>
          if t \<noteq> [] then (t, cleanedAbc)
          else (default_title, lit ''T:Untitled Composition\<newline>'' @ cleanedAbc))"

subsection \<open>The index line\<close>

text \<open>
  \<^verbatim>\<open>/^X:\s*1$/m\<close>: behind \<^verbatim>\<open>X:\<close>, white space (line terminators included), then
  \<^verbatim>\<open>1\<close> at the end of a line: \<^verbatim>\<open>$\<close> matches at the end of the text and before a line
  terminator.
\<close>

fun ws_one_eol :: "jsstring \<Rightarrow> bool" where
  "ws_one_eol [] = False"
| "ws_one_eol (c # cs) =
     (if c = 0x31 then (case cs of [] \<Rightarrow> True | d # _ \<Rightarrow> is_lt d)
      else if is_ws c then ws_one_eol cs
      else False)"

definition index1_here :: "jsstring \<Rightarrow> bool" where
  "index1_here r = (if prefix (lit ''X:'') r then ws_one_eol (drop 2 r) else False)"

definition matches_index1 :: "jsstring \<Rightarrow> bool" where
  "matches_index1 s = exists_line_start index1_here True s"

definition ensure_index :: "jsstring \<Rightarrow> jsstring" where
  "ensure_index s = (if \<not> matches_index1 s then lit ''X:1\<newline>'' @ s else s)"

subsection \<open>Key, meter and tempo\<close>

text \<open>
  \<^verbatim>\<open>/^K:\s*.*\n/m\<close> (and the same for \<^verbatim>\<open>M:\<close> and \<^verbatim>\<open>Q:\<close>): behind the tag, white
  space, then code units other than line terminators, then a line feed. Only whether a
  match exists is used, so \<open>ws_rest_lf\<close> tries every length of the white space:
  either the rest of a line up to a line feed starts here (\<open>rest_lf\<close>), or one white
  space stands here and the same holds behind it.
  \<^verbatim>\<open>replace(/(^X:.*)/m, `$1\nK:C`)\<close> puts the new line behind the first line that starts
  with \<^verbatim>\<open>X:\<close>.
\<close>

fun rest_lf :: "jsstring \<Rightarrow> bool" where
  "rest_lf [] = False"
| "rest_lf (c # cs) = (if c = 0x0A then True else if is_lt c then False else rest_lf cs)"

fun ws_rest_lf :: "jsstring \<Rightarrow> bool" where
  "ws_rest_lf [] = False"
| "ws_rest_lf (c # cs) =
     (if rest_lf (c # cs) then True else if is_ws c then ws_rest_lf cs else False)"

definition header_here :: "jsstring \<Rightarrow> jsstring \<Rightarrow> bool" where
  "header_here tag r = (if prefix tag r then ws_rest_lf (drop (length tag) r) else False)"

definition matches_header :: "jsstring \<Rightarrow> jsstring \<Rightarrow> bool" where
  "matches_header tag s = exists_line_start (header_here tag) True s"

fun insert_after_index :: "jsstring \<Rightarrow> bool \<Rightarrow> jsstring \<Rightarrow> jsstring" where
  "insert_after_index ins bol [] = []"
| "insert_after_index ins bol (c # cs) =
     (if bol \<and> prefix (lit ''X:'') (c # cs) then
        lit ''X:'' @ takeWhile not_lt (drop 2 (c # cs)) @ ins @ dropWhile not_lt (drop 2 (c # cs))
      else c # insert_after_index ins (is_lt c) cs)"

definition ensure_header :: "jsstring \<Rightarrow> jsstring \<Rightarrow> jsstring \<Rightarrow> jsstring" where
  "ensure_header tag ins s =
     (if \<not> matches_header tag s then insert_after_index ins True s else s)"

definition ensure_key :: "jsstring \<Rightarrow> jsstring" where
  "ensure_key = ensure_header (lit ''K:'') (lit ''\<newline>K:C'')"

definition ensure_meter :: "jsstring \<Rightarrow> jsstring" where
  "ensure_meter = ensure_header (lit ''M:'') (lit ''\<newline>M:4/4'')"

definition ensure_tempo :: "jsstring \<Rightarrow> jsstring" where
  "ensure_tempo = ensure_header (lit ''Q:'') (lit ''\<newline>Q:1/4=120'')"

subsection \<open>Musical content\<close>

definition has_content :: "jsstring \<Rightarrow> bool" where
  \<comment> \<open>\<^verbatim>\<open>cleanedAbc.match(/\|/)\<close> or \<^verbatim>\<open>cleanedAbc.match(/[a-gA-G]/)\<close>\<close>
  "has_content s = (list_ex (\<lambda>c. c = 0x7C) s \<or> list_ex is_pitch s)"

definition ensure_content :: "jsstring \<Rightarrow> jsstring" where
  "ensure_content s = (if \<not> has_content s then s @ lit ''\<newline>C |'' else s)"

subsection \<open>The whole function\<close>

record GeneratedMusic =
  title :: jsstring
  abcNotation :: jsstring

definition finish :: "jsstring \<Rightarrow> jsstring" where
  \<comment> \<open>the steps behind the title step\<close>
  "finish s = ensure_content (ensure_tempo (ensure_meter (ensure_key (ensure_index s))))"

definition parseAbcResponse :: "jsstring \<Rightarrow> GeneratedMusic" where
  "parseAbcResponse abcText =
     \<lparr>title = fst (with_title (clean abcText)),
      abcNotation = finish (snd (with_title (clean abcText)))\<rparr>"

section \<open>Lines of a notation text\<close>

text \<open>
  The lines of a text: what stands between two line terminators. A line start of the
  matchers above is the start of one of these lines.
\<close>

fun lines_of :: "jsstring \<Rightarrow> jsstring list" where
  "lines_of [] = [[]]"
| "lines_of (c # cs) =
     (if is_lt c then [] # lines_of cs
      else (case lines_of cs of [] \<Rightarrow> [[c]] | l # ls \<Rightarrow> (c # l) # ls))"

fun insert_line :: "jsstring \<Rightarrow> jsstring list \<Rightarrow> jsstring list" where
  \<comment> \<open>what \<open>insert_after_index\<close> does, seen on the lines\<close>
  "insert_line new [] = []"
| "insert_line new (l # ls) =
     (if prefix (lit ''X:'') l then l # new # ls else l # insert_line new ls)"

definition lines_with :: "jsstring \<Rightarrow> jsstring \<Rightarrow> nat" where
  \<comment> \<open>the number of lines that start with \<open>tag\<close>\<close>
  "lines_with tag s = length (filter (prefix tag) (lines_of s))"

definition index_lines :: "jsstring \<Rightarrow> nat" where
  "index_lines = lines_with (lit ''X:'')"

definition title_lines :: "jsstring \<Rightarrow> nat" where
  "title_lines = lines_with (lit ''T:'')"

definition key_lines :: "jsstring \<Rightarrow> nat" where
  "key_lines = lines_with (lit ''K:'')"

definition meter_lines :: "jsstring \<Rightarrow> nat" where
  "meter_lines = lines_with (lit ''M:'')"

definition tempo_lines :: "jsstring \<Rightarrow> nat" where
  "tempo_lines = lines_with (lit ''Q:'')"

definition is_index1_line :: "jsstring \<Rightarrow> bool" where
  \<comment> \<open>an index line with value 1: \<^verbatim>\<open>X:\<close>, white space, \<^verbatim>\<open>1\<close>, all on one line\<close>
  "is_index1_line l = (prefix (lit ''X:'') l \<and> dropWhile is_ws (drop 2 l) = [0x31])"

definition index1_lines :: "jsstring \<Rightarrow> nat" where
  "index1_lines s = length (filter is_index1_line (lines_of s))"

section \<open>The composition request service\<close>

text \<open>
  A thrown value has the two readings the handlers use: \<^verbatim>\<open>err.message\<close> (empty when
  there is none) and \<^verbatim>\<open>String(err)\<close>. A call into a collaborator either returns or
  throws; a promise is resolved or rejected.
\<close>

datatype thrown = Thrown (message: jsstring) (as_string: jsstring)

definition js_Error :: "jsstring \<Rightarrow> thrown" where
  \<comment> \<open>\<^verbatim>\<open>new Error(m)\<close>\<close>
  "js_Error m = Thrown m (lit ''Error: '' @ m)"

datatype 'a outcome = Returns 'a | Throws thrown

definition missing_key :: thrown where
  "missing_key = js_Error (lit ''VITE_GEMINI_API_KEY environment variable is missing or invalid. Please configure your API key to use the Gemini API.'')"

definition no_text :: thrown where
  "no_text = js_Error (lit ''Music generation failed to return any text.'')"

text \<open>
  The body of the service module runs once, when the module is loaded: it reads the key
  from the environment (\<open>None\<close>: not set) and throws when the key is falsy. The client
  \<^verbatim>\<open>ai\<close> is the value the rest of the module works with; it is the key here.
\<close>

definition module_init :: "jsstring option \<Rightarrow> thrown + jsstring" where
  "module_init API_KEY =
     (case API_KEY of
        None \<Rightarrow> Inl missing_key
      | Some k \<Rightarrow> if k = [] then Inl missing_key else Inr k)"

definition musicPrompt :: "jsstring \<Rightarrow> jsstring" where
  "musicPrompt prompt =
     lit ''You are an expert music composer specializing in ABC notation. Generate a single-voice instrumental melody in ABC notation based on the following theme: \"''
     @ prompt
     @ lit ''\". The melody should be at least 150 seconds long. Respond ONLY with the complete ABC notation code, starting with 'X:1'. You must include a title line (T:), a key line (K:), a meter line (M:), and a tempo line (Q:). Do not include any explanations, comments, or markdown formatting. Your entire response must be valid ABC notation.''"

text \<open>
  \<^verbatim>\<open>generateMusic\<close>: one call of the model \<open>generateContent\<close>, which throws or returns
  a response whose text may be missing.
\<close>

definition generateMusic ::
  "jsstring \<Rightarrow> (jsstring \<Rightarrow> jsstring option outcome) \<Rightarrow> jsstring \<Rightarrow> thrown + GeneratedMusic" where
  "generateMusic ai generateContent prompt =
     (case generateContent (musicPrompt prompt) of
        Throws e \<Rightarrow> Inl e
      | Returns None \<Rightarrow> Inl no_text
      | Returns (Some musicText) \<Rightarrow>
          if musicText = [] then Inl no_text else Inr (parseAbcResponse musicText))"

definition request ::
  "jsstring option \<Rightarrow> (jsstring \<Rightarrow> jsstring option outcome) \<Rightarrow> jsstring \<Rightarrow> thrown + GeneratedMusic" where
  \<comment> \<open>a request of a program that has loaded the module: \<^verbatim>\<open>generateMusic\<close> exists only
      when the module body has not thrown\<close>
  "request API_KEY generateContent prompt =
     (case module_init API_KEY of
        Inl e \<Rightarrow> Inl e
      | Inr ai \<Rightarrow> generateMusic ai generateContent prompt)"

section \<open>The display component: \<^verbatim>\<open>MusicDisplay\<close>\<close>

subsection \<open>State and collaborators\<close>

text \<open>
  The state of a mounted component, as far as the render effect and the export handler
  read and write it. The sheet-music container is part of the page only while
  \<open>renderError\<close> is \<open>None\<close> (the conditional at the end of the component), so
  \<^verbatim>\<open>visualRef.current\<close> is null exactly when an error is shown; the container of the
  playback controls is always there. \<open>visualHTML\<close> is what the library has drawn into
  the sheet-music container, given as the visual objects \<^verbatim>\<open>renderAbc\<close> returned.
  \<open>contexts\<close> lists every audio context created so far, \<open>synth_constructions\<close> counts
  the calls of the synthesizer's constructor.
\<close>

datatype ctx = Open | Closed

record 'v display =
  musicData :: GeneratedMusic
  abcjs_loaded :: bool
  currentStaffWidth :: int
  renderError :: "jsstring option"
  visualHTML :: "'v list"
  audioHTML :: bool
  synth_constructions :: nat
  contexts :: "ctx list"

datatype settled = Resolved | Rejected thrown

text \<open>
  What the library answers during one run: \<^verbatim>\<open>renderAbc\<close> returns the visual objects
  (\<open>None\<close>: a falsy result) or throws; \<^verbatim>\<open>init\<close> and \<^verbatim>\<open>prime\<close> throw at once or
  return a promise; \<^verbatim>\<open>getMidiFile\<close> is awaited, its rejection is a throw.
\<close>

record 'v abcjs =
  renderAbc :: "'v list option outcome"
  createSynth :: "unit outcome"
  newAudioContext :: "unit outcome"
  init :: "settled outcome"
  prime :: "settled outcome"
  renderMidi :: "unit outcome"
  getMidiFile :: "8 word list outcome"

definition error_text :: "thrown \<Rightarrow> jsstring" where
  \<comment> \<open>\<^verbatim>\<open>err.message || String(err)\<close>\<close>
  "error_text e = (if message e \<noteq> [] then message e else as_string e)"

definition visual_error :: jsstring where
  "visual_error = lit ''Failed to render sheet music visually. This usually means the generated ABC notation is invalid or incomplete.''"

definition audio_error :: "thrown \<Rightarrow> jsstring" where
  "audio_error err = lit ''Could not prepare audio for playback. This can happen if the ABC notation is malformed or if the browser blocks audio. Error: '' @ error_text err"

definition display_error :: "thrown \<Rightarrow> jsstring" where
  "display_error error = lit ''The generated music notation could not be displayed. Error: '' @ error_text error"

subsection \<open>The render effect\<close>

definition effect_guard :: "'v display \<Rightarrow> bool" where
  \<comment> \<open>the library is loaded, there is notation, and both containers are mounted\<close>
  "effect_guard d = (abcjs_loaded d \<and> abcNotation (musicData d) \<noteq> [] \<and> renderError d = None)"

definition close_ctx :: "nat \<Rightarrow> ctx list \<Rightarrow> ctx list" where
  \<comment> \<open>\<^verbatim>\<open>if (audioContext && audioContext.state !== 'closed') audioContext.close()\<close>\<close>
  "close_ctx i cs = (if i < length cs \<and> cs ! i \<noteq> Closed then cs[i := Closed] else cs)"

text \<open>
  The synchronous part of the effect, up to the call of \<^verbatim>\<open>init\<close>. It returns the new
  state and, when a promise chain was started, the audio context that chain holds.
\<close>

definition effect_start :: "'v abcjs \<Rightarrow> 'v display \<Rightarrow> 'v display \<times> nat option" where
  "effect_start lib d =
     (if \<not> effect_guard d then (d, None)
      else
        let d0 = d\<lparr>visualHTML := [], audioHTML := False, renderError := None\<rparr> in
        case renderAbc lib of
          Throws error \<Rightarrow> (d0\<lparr>renderError := Some (display_error error)\<rparr>, None)
        | Returns visualObjs \<Rightarrow>
            let d1 = d0\<lparr>visualHTML := (case visualObjs of None \<Rightarrow> [] | Some vs \<Rightarrow> vs)\<rparr> in
            if visualObjs = None \<or> visualObjs = Some [] then
              (d1\<lparr>renderError := Some visual_error\<rparr>, None)
            else
              let d2 = d1\<lparr>synth_constructions := synth_constructions d1 + 1\<rparr> in
              case createSynth lib of
                Throws error \<Rightarrow> (d2\<lparr>renderError := Some (display_error error)\<rparr>, None)
              | Returns _ \<Rightarrow>
                  (case newAudioContext lib of
                     Throws error \<Rightarrow> (d2\<lparr>renderError := Some (display_error error)\<rparr>, None)
                   | Returns _ \<Rightarrow>
                       let d3 = d2\<lparr>contexts := contexts d2 @ [Open]\<rparr> in
                       (case init lib of
                          Throws error \<Rightarrow> (d3\<lparr>renderError := Some (display_error error)\<rparr>, None)
                        | Returns _ \<Rightarrow> (d3, Some (length (contexts d2))))))"

text \<open>
  The promise chain \<^verbatim>\<open>init(...).then(prime).then(renderMidi).catch(...)\<close>: the first
  failure, if any, reaches the handler.
\<close>

definition chain_failure :: "'v abcjs \<Rightarrow> thrown option" where
  "chain_failure lib =
     (case init lib of
        Throws err \<Rightarrow> Some err
      | Returns (Rejected err) \<Rightarrow> Some err
      | Returns Resolved \<Rightarrow>
          (case prime lib of
             Throws err \<Rightarrow> Some err
           | Returns (Rejected err) \<Rightarrow> Some err
           | Returns Resolved \<Rightarrow>
               (case renderMidi lib of Throws err \<Rightarrow> Some err | Returns _ \<Rightarrow> None)))"

definition effect_settle :: "'v abcjs \<Rightarrow> nat \<Rightarrow> 'v display \<Rightarrow> 'v display" where
  "effect_settle lib audioContext d =
     (case chain_failure lib of
        None \<Rightarrow> d\<lparr>audioHTML := True\<rparr>
      | Some err \<Rightarrow>
          d\<lparr>renderError := Some (audio_error err),
            contexts := close_ctx audioContext (contexts d)\<rparr>)"

definition render_effect :: "'v abcjs \<Rightarrow> 'v display \<Rightarrow> 'v display" where
  \<comment> \<open>one run of the effect, with its promise chain settled\<close>
  "render_effect lib d =
     (case effect_start lib d of
        (d', None) \<Rightarrow> d'
      | (d', Some audioContext) \<Rightarrow> effect_settle lib audioContext d')"

text \<open>
  A resize measures the sheet-music container, when it is mounted; the effect depends on
  the notation and on the width, and runs again when the width has changed.
\<close>

definition calculateStaffWidth :: "int \<Rightarrow> 'v display \<Rightarrow> 'v display" where
  "calculateStaffWidth clientWidth d =
     (if renderError d = None then d\<lparr>currentStaffWidth := clientWidth - 40\<rparr> else d)"

definition on_resize :: "int \<Rightarrow> 'v abcjs \<Rightarrow> 'v display \<Rightarrow> 'v display" where
  "on_resize clientWidth lib d =
     (let d' = calculateStaffWidth clientWidth d
      in if currentStaffWidth d' \<noteq> currentStaffWidth d then render_effect lib d' else d')"

subsection \<open>What is shown\<close>

datatype 'v shown = ErrorBox jsstring | SheetMusic "'v list"

definition view :: "'v display \<Rightarrow> 'v shown" where
  \<comment> \<open>the conditional of the component: the error box stands in the place of the
      sheet-music container\<close>
  "view d = (case renderError d of Some m \<Rightarrow> ErrorBox m | None \<Rightarrow> SheetMusic (visualHTML d))"

definition is_ready :: "'v display \<Rightarrow> bool" where
  \<comment> \<open>the pipeline has got to its end: the playback controls are rendered\<close>
  "is_ready d = (audioHTML d \<and> renderError d = None)"

subsection \<open>The audio export: \<^verbatim>\<open>handleDownloadMidi\<close>\<close>

datatype export_result = Alert jsstring | Download "8 word list" jsstring

definition export_failed :: export_result where
  "export_failed = Alert (lit ''Failed to export MIDI. Please try again.'')"

definition handleDownloadMidi :: "'v abcjs \<Rightarrow> 'v display \<Rightarrow> export_result \<times> 'v display" where
  "handleDownloadMidi lib d =
     (if abcNotation (musicData d) = [] then (Alert (lit ''No music to export.''), d)
      else if \<not> abcjs_loaded d then
        (Alert (lit ''ABCJS library is not loaded. Cannot export MIDI.''), d)
      else if renderError d \<noteq> None then (export_failed, d)
      else
        case renderAbc lib of
          Throws error \<Rightarrow> (export_failed, d)
        | Returns visualObjs \<Rightarrow>
            if visualObjs = None \<or> visualObjs = Some [] then (export_failed, d)
            else
              let d1 = d\<lparr>synth_constructions := synth_constructions d + 1\<rparr> in
              case createSynth lib of
                Throws error \<Rightarrow> (export_failed, d1)
              | Returns _ \<Rightarrow>
                  (case newAudioContext lib of
                     Throws error \<Rightarrow> (export_failed, d1)
                   | Returns _ \<Rightarrow>
                       let d2 = d1\<lparr>contexts := contexts d1 @ [Open]\<rparr> in
                       (case init lib of
                          Throws error \<Rightarrow> (export_failed, d2)
                        | Returns (Rejected error) \<Rightarrow> (export_failed, d2)
                        | Returns Resolved \<Rightarrow>
                            (case getMidiFile lib of
                               Throws error \<Rightarrow> (export_failed, d2)
                             | Returns midi \<Rightarrow>
                                 (Download midi
                                    ((if title (musicData d) \<noteq> [] then title (musicData d)
                                      else lit ''untitled'') @ lit ''.mid''),
                                  d2)))))"

subsection \<open>A document, a mounted component and a library for the examples\<close>

definition song :: GeneratedMusic where
  "song = \<lparr>title = lit ''Song'', abcNotation = lit ''X:1\<newline>T:Song\<newline>K:C\<newline>CDE|''\<rparr>"

definition mounted :: "nat display" where
  "mounted = \<lparr>musicData = song, abcjs_loaded = True, currentStaffWidth = 560,
     renderError = None, visualHTML = [], audioHTML = False, synth_constructions = 0,
     contexts = []\<rparr>"

definition lib_ok :: "nat abcjs" where
  "lib_ok = \<lparr>renderAbc = Returns (Some [1]), createSynth = Returns (),
     newAudioContext = Returns (), init = Returns Resolved, prime = Returns Resolved,
     renderMidi = Returns (), getMidiFile = Returns [0x4D, 0x54, 0x68, 0x64]\<rparr>"

section \<open>Properties of the lines\<close>

lemma lines_of_not_Nil: "lines_of s \<noteq> []"
  by (induction s) (auto split: list.splits)

lemma lines_of_single: "\<forall>c\<in>set l. \<not> is_lt c \<Longrightarrow> lines_of l = [l]"
  by (induction l) auto

lemma lines_of_line_Cons:
  "\<forall>c\<in>set l. \<not> is_lt c \<Longrightarrow> is_lt t \<Longrightarrow> lines_of (l @ t # s) = l # lines_of s"
  by (induction l) auto

lemma lines_of_snoc_line:
  "is_lt t \<Longrightarrow> \<forall>c\<in>set l. \<not> is_lt c \<Longrightarrow> lines_of (s @ t # l) = lines_of s @ [l]"
proof (induction s)
  case Nil
  then show ?case by (simp add: lines_of_single)
next
  case (Cons c cs)
  then show ?case
    by (cases "lines_of cs") (auto simp: lines_of_not_Nil)
qed

lemma line_induct [case_names single cons]:
  assumes single: "\<And>l. \<forall>c\<in>set l. \<not> is_lt c \<Longrightarrow> P l"
    and cons: "\<And>l t s. \<forall>c\<in>set l. \<not> is_lt c \<Longrightarrow> is_lt t \<Longrightarrow> P s \<Longrightarrow> P (l @ t # s)"
  shows "P s"
proof (induction s rule: length_induct)
  case (1 s)
  let ?l = "takeWhile not_lt s"
  have l: "\<forall>c\<in>set ?l. \<not> is_lt c"
    by (auto dest: set_takeWhileD)
  show ?case
  proof (cases "dropWhile not_lt s")
    case Nil
    then have "?l = s"
      by (metis append_Nil2 takeWhile_dropWhile_id)
    with single [OF l] show ?thesis by simp
  next
    case (Cons t s')
    then have t: "is_lt t"
      by (metis hd_dropWhile list.distinct(1) list.sel(1))
    have s: "s = ?l @ t # s'"
      using Cons by (metis takeWhile_dropWhile_id)
    then have "length s' < length s"
      by (metis add_Suc_right length_Cons length_append less_add_Suc2)
    with 1 have "P s'" by blast
    from cons [OF l t this] s show ?thesis by simp
  qed
qed

lemma prefix_line_iff:
  assumes "\<forall>c\<in>set tag. \<not> is_lt c" "is_lt t"
  shows "prefix tag (l @ t # s) \<longleftrightarrow> prefix tag l"
proof
  assume "prefix tag (l @ t # s)"
  then have "prefix tag l \<or> (\<exists>us. tag = l @ us \<and> prefix us (t # s))"
    by (simp add: prefix_append)
  then show "prefix tag l"
  proof
    assume "\<exists>us. tag = l @ us \<and> prefix us (t # s)"
    then obtain us where us: "tag = l @ us" "prefix us (t # s)" by blast
    show ?thesis
    proof (cases us)
      case Nil
      with us show ?thesis by simp
    next
      case (Cons u us')
      with us have "t \<in> set tag" by simp
      with assms show ?thesis by blast
    qed
  qed
qed auto

lemma find_line_start_mid:
  "\<forall>c\<in>set l. \<not> is_lt c \<Longrightarrow> is_lt t \<Longrightarrow>
   find_line_start tag False (l @ t # s) = find_line_start tag True s"
  by (induction l) auto

lemma find_line_start_mid_single:
  "\<forall>c\<in>set l. \<not> is_lt c \<Longrightarrow> find_line_start tag False l = None"
  by (induction l) auto

lemma find_line_start_line:
  assumes "\<forall>c\<in>set tag. \<not> is_lt c" "\<forall>c\<in>set l. \<not> is_lt c" "is_lt t"
  shows "find_line_start tag True (l @ t # s) =
     (if prefix tag l then Some (drop (length tag) (l @ t # s)) else find_line_start tag True s)"
proof (cases l)
  case Nil
  with assms show ?thesis by (cases tag) auto
next
  case (Cons c l')
  with assms have "find_line_start tag False (l' @ t # s) = find_line_start tag True s"
    by (simp add: find_line_start_mid)
  moreover have "prefix tag ((c # l') @ t # s) \<longleftrightarrow> prefix tag (c # l')"
    using assms(1,3) by (rule prefix_line_iff)
  ultimately show ?thesis using Cons assms by simp
qed

lemma find_line_start_single:
  assumes "\<forall>c\<in>set l. \<not> is_lt c"
  shows "find_line_start tag True l =
     (if l \<noteq> [] \<and> prefix tag l then Some (drop (length tag) l) else None)"
  using assms by (cases l) (auto simp: find_line_start_mid_single)

lemma exists_line_start_mid:
  "\<forall>c\<in>set l. \<not> is_lt c \<Longrightarrow> is_lt t \<Longrightarrow>
   exists_line_start Q False (l @ t # s) = exists_line_start Q True s"
  by (induction l) auto

lemma exists_line_start_mid_single:
  "\<forall>c\<in>set l. \<not> is_lt c \<Longrightarrow> exists_line_start Q False l = False"
  by (induction l) auto

lemma exists_line_start_line:
  "\<forall>c\<in>set l. \<not> is_lt c \<Longrightarrow> is_lt t \<Longrightarrow>
   exists_line_start Q True (l @ t # s) = (Q (l @ t # s) \<or> exists_line_start Q True s)"
  by (cases l) (auto simp: exists_line_start_mid)

lemma exists_line_start_single:
  "\<forall>c\<in>set l. \<not> is_lt c \<Longrightarrow> exists_line_start Q True l = Q l"
  by (cases l) (auto simp: exists_line_start_mid_single)

lemma insert_after_index_mid:
  "\<forall>c\<in>set l. \<not> is_lt c \<Longrightarrow> is_lt t \<Longrightarrow>
   insert_after_index ins False (l @ t # s) = l @ t # insert_after_index ins True s"
  by (induction l) auto

lemma insert_after_index_mid_single:
  "\<forall>c\<in>set l. \<not> is_lt c \<Longrightarrow> insert_after_index ins False l = l"
  by (induction l) auto

lemma tagX_not_lt: "\<forall>c\<in>set (lit ''X:''). \<not> is_lt c"
  by (simp add: lit_def is_lt_def)

lemma length_tagX: "length (lit ''X:'') = 2"
  by (simp add: lit_def)

lemma insert_after_index_line:
  assumes "\<forall>c\<in>set l. \<not> is_lt c" "is_lt t"
  shows "insert_after_index ins True (l @ t # s) =
     (if prefix (lit ''X:'') l then l @ ins @ t # s else l @ t # insert_after_index ins True s)"
proof (cases "prefix (lit ''X:'') l")
  case True
  then obtain l' where l: "l = lit ''X:'' @ l'"
    by (auto simp: prefix_def)
  with assms have l': "\<forall>c\<in>set l'. \<not> is_lt c" by simp
  have "l @ t # s = 0x58 # 0x3A # (l' @ t # s)"
    by (simp add: l lit_def)
  moreover have "takeWhile not_lt (l' @ t # s) = l'" "dropWhile not_lt (l' @ t # s) = t # s"
    using l' assms(2) by (simp_all add: takeWhile_append2 dropWhile_append2)
  ultimately show ?thesis
    using True by (simp add: l lit_def)
next
  case False
  then have np: "\<not> prefix (lit ''X:'') (l @ t # s)"
    using prefix_line_iff [OF tagX_not_lt assms(2)] by blast
  show ?thesis
  proof (cases l)
    case Nil
    with np False show ?thesis by simp (use assms in simp)
  next
    case (Cons c l')
    with assms have "insert_after_index ins False (l' @ t # s) = l' @ t # insert_after_index ins True s"
      by (simp add: insert_after_index_mid)
    with np False Cons assms show ?thesis by simp
  qed
qed

lemma insert_after_index_single:
  assumes "\<forall>c\<in>set l. \<not> is_lt c"
  shows "insert_after_index ins True l = (if prefix (lit ''X:'') l then l @ ins else l)"
proof (cases "prefix (lit ''X:'') l")
  case True
  then obtain l' where l: "l = lit ''X:'' @ l'"
    by (auto simp: prefix_def)
  with assms have l': "\<forall>c\<in>set l'. \<not> is_lt c" by simp
  then have "takeWhile not_lt l' = l'" "dropWhile not_lt l' = []"
    by simp_all
  then show ?thesis
    using True by (simp add: l lit_def)
next
  case False
  then show ?thesis
    using assms by (cases l) (auto simp: insert_after_index_mid_single)
qed

lemma lines_of_insert_after_index:
  assumes "is_lt t" "\<forall>c\<in>set new. \<not> is_lt c"
  shows "lines_of (insert_after_index (t # new) True s) = insert_line new (lines_of s)"
proof (induction s rule: line_induct)
  case (single l)
  then show ?case
    using assms by (simp add: insert_after_index_single lines_of_single lines_of_line_Cons)
next
  case (cons l u s)
  then show ?case
    using assms by (simp add: insert_after_index_line lines_of_line_Cons)
qed

lemma set_insert_line:
  "set (insert_line new ls) = set ls \<union> (if \<exists>l\<in>set ls. prefix (lit ''X:'') l then {new} else {})"
  by (induction ls) auto

lemma filter_insert_line_other:
  "\<not> P new \<Longrightarrow> filter P (insert_line new ls) = filter P ls"
  by (induction ls) auto

lemma find_line_start_lines:
  assumes "\<forall>c\<in>set tag. \<not> is_lt c" "tag \<noteq> []"
  shows "find (prefix tag) (lines_of s) =
     map_option (\<lambda>r. tag @ takeWhile not_lt r) (find_line_start tag True s)"
proof (induction s rule: line_induct)
  case (single l)
  have "tag @ takeWhile not_lt (drop (length tag) l) = l" if "prefix tag l"
  proof -
    have "\<forall>c\<in>set (drop (length tag) l). \<not> is_lt c"
      using single by (auto dest: in_set_dropD)
    then have "takeWhile not_lt (drop (length tag) l) = drop (length tag) l"
      by simp
    with that show ?thesis by (auto simp: prefix_def)
  qed
  then show ?case
    using single assms by (auto simp: lines_of_single find_line_start_single)
next
  case (cons l t s)
  have "takeWhile not_lt (drop (length tag) (l @ t # s)) = drop (length tag) l" if "prefix tag l"
  proof -
    from that have "length tag \<le> length l" by (simp add: prefix_length_le)
    then have "drop (length tag) (l @ t # s) = drop (length tag) l @ t # s" by simp
    moreover have "\<forall>c\<in>set (drop (length tag) l). \<not> is_lt c"
      using cons(1) by (auto dest: in_set_dropD)
    ultimately show ?thesis using cons(2) by (simp add: takeWhile_append2)
  qed
  moreover have "prefix tag l \<Longrightarrow> tag @ drop (length tag) l = l"
    by (auto simp: prefix_def)
  ultimately show ?case
    using cons assms by (simp add: lines_of_line_Cons find_line_start_line)
qed

lemma exists_line_start_tag_lines:
  assumes "\<forall>c\<in>set tag. \<not> is_lt c" "\<And>r. Q r \<Longrightarrow> prefix tag r"
  shows "exists_line_start Q True s \<Longrightarrow> \<exists>l\<in>set (lines_of s). prefix tag l"
proof (induction s rule: line_induct)
  case (single l)
  then show ?case using assms(2) by (auto simp: exists_line_start_single lines_of_single)
next
  case (cons l t s)
  then show ?case
    using prefix_line_iff [OF assms(1) cons(2)] assms(2)
    by (auto simp: exists_line_start_line lines_of_line_Cons)
qed

lemma is_lt_LF: "is_lt 0x0A"
  by (simp add: is_lt_def)

lemma is_lt_is_ws: "is_lt c \<Longrightarrow> is_ws c"
  by (auto simp: is_lt_def is_ws_def)

lemma lit_not_lt:
  "\<forall>c\<in>set (lit ''T:''). \<not> is_lt c" "\<forall>c\<in>set (lit ''K:''). \<not> is_lt c"
  "\<forall>c\<in>set (lit ''M:''). \<not> is_lt c" "\<forall>c\<in>set (lit ''Q:''). \<not> is_lt c"
  "\<forall>c\<in>set (lit ''X:1''). \<not> is_lt c" "\<forall>c\<in>set (lit ''K:C''). \<not> is_lt c"
  "\<forall>c\<in>set (lit ''M:4/4''). \<not> is_lt c" "\<forall>c\<in>set (lit ''Q:1/4=120''). \<not> is_lt c"
  "\<forall>c\<in>set (lit ''C |''). \<not> is_lt c" "\<forall>c\<in>set (lit ''T:Untitled Composition''). \<not> is_lt c"
  by (simp_all add: lit_def is_lt_def)

lemma lit_split:
  "lit ''X:1\<newline>'' = lit ''X:1'' @ [0x0A]"
  "lit ''T:Untitled Composition\<newline>'' = lit ''T:Untitled Composition'' @ [0x0A]"
  "lit ''\<newline>K:C'' = 0x0A # lit ''K:C''"
  "lit ''\<newline>M:4/4'' = 0x0A # lit ''M:4/4''"
  "lit ''\<newline>Q:1/4=120'' = 0x0A # lit ''Q:1/4=120''"
  "lit ''\<newline>C |'' = 0x0A # lit ''C |''"
  by (simp_all add: lit_def)

lemma lines_of_with_title:
  "lines_of (snd (with_title s)) =
     (if titleMatch s = None \<or> titleMatch s = Some []
      then lit ''T:Untitled Composition'' # lines_of s else lines_of s)"
  by (auto simp: with_title_def lit_split lines_of_line_Cons lit_not_lt is_lt_LF
      split: option.splits)

lemma lines_of_ensure_index:
  "lines_of (ensure_index s) =
     (if matches_index1 s then lines_of s else lit ''X:1'' # lines_of s)"
  by (simp add: ensure_index_def lit_split lines_of_line_Cons lit_not_lt is_lt_LF)

lemma lines_of_ensure_header:
  assumes "\<forall>c\<in>set new. \<not> is_lt c"
  shows "lines_of (ensure_header tag (0x0A # new) s) =
     (if matches_header tag s then lines_of s else insert_line new (lines_of s))"
  using assms by (simp add: ensure_header_def lines_of_insert_after_index is_lt_LF)

lemma lines_of_ensure_content:
  "lines_of (ensure_content s) =
     (if has_content s then lines_of s else lines_of s @ [lit ''C |''])"
  by (simp add: ensure_content_def lit_split lines_of_snoc_line lit_not_lt is_lt_LF)

lemma lines_of_ensure_key:
  "lines_of (ensure_key s) =
     (if matches_header (lit ''K:'') s then lines_of s else insert_line (lit ''K:C'') (lines_of s))"
  by (simp add: ensure_key_def lit_split lines_of_ensure_header lit_not_lt)

lemma lines_of_ensure_meter:
  "lines_of (ensure_meter s) =
     (if matches_header (lit ''M:'') s then lines_of s else insert_line (lit ''M:4/4'') (lines_of s))"
  by (simp add: ensure_meter_def lit_split lines_of_ensure_header lit_not_lt)

lemma lines_of_ensure_tempo:
  "lines_of (ensure_tempo s) =
     (if matches_header (lit ''Q:'') s then lines_of s
      else insert_line (lit ''Q:1/4=120'') (lines_of s))"
  by (simp add: ensure_tempo_def lit_split lines_of_ensure_header lit_not_lt)

lemmas lines_of_steps =
  lines_of_ensure_index lines_of_ensure_key lines_of_ensure_meter lines_of_ensure_tempo
  lines_of_ensure_content

text \<open>No step removes a line.\<close>

lemma lines_kept_finish: "set (lines_of s) \<subseteq> set (lines_of (finish s))"
  by (auto simp: finish_def lines_of_steps set_insert_line)

text \<open>The steps behind the title step add no line that a predicate false on the five
  inserted lines would count.\<close>

lemma filter_lines_finish:
  assumes "\<not> P (lit ''X:1'')" "\<not> P (lit ''K:C'')" "\<not> P (lit ''M:4/4'')"
    "\<not> P (lit ''Q:1/4=120'')" "\<not> P (lit ''C |'')"
  shows "filter P (lines_of (finish s)) = filter P (lines_of s)"
  using assms by (simp add: finish_def lines_of_steps filter_insert_line_other)

lemma index_line_ensure_index: "\<exists>l\<in>set (lines_of (ensure_index s)). prefix (lit ''X:'') l"
proof (cases "matches_index1 s")
  case True
  then have "\<exists>l\<in>set (lines_of s). prefix (lit ''X:'') l"
    unfolding matches_index1_def
    by (rule exists_line_start_tag_lines [OF tagX_not_lt, rotated])
       (simp add: index1_here_def split: if_splits)
  with True show ?thesis by (simp add: lines_of_ensure_index)
next
  case False
  then show ?thesis by (simp add: lines_of_ensure_index lit_def)
qed

lemma header_line_ensure_header:
  assumes "\<forall>c\<in>set tag. \<not> is_lt c" "\<forall>c\<in>set new. \<not> is_lt c" "prefix tag new"
    and "\<exists>l\<in>set (lines_of s). prefix (lit ''X:'') l"
  shows "\<exists>l\<in>set (lines_of (ensure_header tag (0x0A # new) s)). prefix tag l"
proof (cases "matches_header tag s")
  case True
  then have "\<exists>l\<in>set (lines_of s). prefix tag l"
    unfolding matches_header_def
    by (rule exists_line_start_tag_lines [OF assms(1), rotated])
       (simp add: header_here_def split: if_splits)
  with True show ?thesis using assms(2) by (simp add: lines_of_ensure_header)
next
  case False
  then show ?thesis
    using assms by (simp add: lines_of_ensure_header set_insert_line)
qed

lemma lines_kept_ensure_header:
  "\<forall>c\<in>set new. \<not> is_lt c \<Longrightarrow>
   set (lines_of s) \<subseteq> set (lines_of (ensure_header tag (0x0A # new) s))"
  by (auto simp: lines_of_ensure_header set_insert_line)

lemma lines_with_pos: "1 \<le> lines_with tag s \<longleftrightarrow> (\<exists>l\<in>set (lines_of s). prefix tag l)"
  by (auto simp: lines_with_def Suc_le_eq length_greater_0_conv filter_empty_conv)

lemma has_content_ensure_content: "has_content (ensure_content s)"
  by (simp add: ensure_content_def has_content_def lit_def)

lemma header_lines_finish:
  "\<exists>l\<in>set (lines_of (finish s)). prefix (lit ''X:'') l"
  "\<exists>l\<in>set (lines_of (finish s)). prefix (lit ''K:'') l"
  "\<exists>l\<in>set (lines_of (finish s)). prefix (lit ''M:'') l"
  "\<exists>l\<in>set (lines_of (finish s)). prefix (lit ''Q:'') l"
proof -
  define s1 where "s1 = ensure_index s"
  define s2 where "s2 = ensure_key s1"
  define s3 where "s3 = ensure_meter s2"
  define s4 where "s4 = ensure_tempo s3"
  have fin: "finish s = ensure_content s4"
    by (simp add: finish_def s1_def s2_def s3_def s4_def)
  have k12: "set (lines_of s1) \<subseteq> set (lines_of s2)"
    unfolding s2_def ensure_key_def lit_split by (rule lines_kept_ensure_header) (rule lit_not_lt)
  have k23: "set (lines_of s2) \<subseteq> set (lines_of s3)"
    unfolding s3_def ensure_meter_def lit_split by (rule lines_kept_ensure_header) (rule lit_not_lt)
  have k34: "set (lines_of s3) \<subseteq> set (lines_of s4)"
    unfolding s4_def ensure_tempo_def lit_split by (rule lines_kept_ensure_header) (rule lit_not_lt)
  have k45: "set (lines_of s4) \<subseteq> set (lines_of (finish s))"
    by (auto simp: fin lines_of_ensure_content)
  have x1: "\<exists>l\<in>set (lines_of s1). prefix (lit ''X:'') l"
    unfolding s1_def by (rule index_line_ensure_index)
  with k12 have x2: "\<exists>l\<in>set (lines_of s2). prefix (lit ''X:'') l" by blast
  with k23 have x3: "\<exists>l\<in>set (lines_of s3). prefix (lit ''X:'') l" by blast
  with k34 k45 show "\<exists>l\<in>set (lines_of (finish s)). prefix (lit ''X:'') l" by blast
  have "\<exists>l\<in>set (lines_of s2). prefix (lit ''K:'') l"
    unfolding s2_def ensure_key_def lit_split
    by (rule header_line_ensure_header [OF lit_not_lt(2) lit_not_lt(6) _ x1]) (simp add: lit_def)
  with k23 k34 k45 show "\<exists>l\<in>set (lines_of (finish s)). prefix (lit ''K:'') l" by blast
  have "\<exists>l\<in>set (lines_of s3). prefix (lit ''M:'') l"
    unfolding s3_def ensure_meter_def lit_split
    by (rule header_line_ensure_header [OF lit_not_lt(3) lit_not_lt(7) _ x2]) (simp add: lit_def)
  with k34 k45 show "\<exists>l\<in>set (lines_of (finish s)). prefix (lit ''M:'') l" by blast
  have "\<exists>l\<in>set (lines_of s4). prefix (lit ''Q:'') l"
    unfolding s4_def ensure_tempo_def lit_split
    by (rule header_line_ensure_header [OF lit_not_lt(4) lit_not_lt(8) _ x3]) (simp add: lit_def)
  with k45 show "\<exists>l\<in>set (lines_of (finish s)). prefix (lit ''Q:'') l" by blast
qed

lemma title_line_with_title: "\<exists>l\<in>set (lines_of (snd (with_title s))). prefix (lit ''T:'') l"
proof (cases "titleMatch s = None \<or> titleMatch s = Some []")
  case True
  then show ?thesis by (simp add: lines_of_with_title lit_def)
next
  case False
  then have "find_line_start (lit ''T:'') True s \<noteq> None"
    by (auto simp: titleMatch_def split: option.splits)
  then have "find (prefix (lit ''T:'')) (lines_of s) \<noteq> None"
    by (simp add: find_line_start_lines lit_not_lt lit_def)
  then have "\<exists>l\<in>set (lines_of s). prefix (lit ''T:'') l"
    by (auto simp: find_None_iff)
  with False show ?thesis by (simp add: lines_of_with_title)
qed

lemma ws_one_eol_dropWhile:
  "dropWhile is_ws r = 0x31 # rest \<Longrightarrow> rest = [] \<or> is_lt (hd rest) \<Longrightarrow> ws_one_eol r"
proof (induction r)
  case Nil
  then show ?case by simp
next
  case (Cons c cs)
  then show ?case
    by (cases rest) (auto simp: is_ws_def split: if_splits)
qed

lemma index1_here_line:
  assumes "is_index1_line l" "rest = [] \<or> is_lt (hd rest)"
  shows "index1_here (l @ rest)"
proof -
  from assms(1) obtain l' where l: "l = lit ''X:'' @ l'" and d: "dropWhile is_ws l' = [0x31]"
    by (auto simp: is_index1_line_def prefix_def length_tagX)
  from d have "\<exists>x\<in>set l'. \<not> is_ws x"
    by (metis dropWhile_eq_Nil_conv list.distinct(1))
  then have "dropWhile is_ws (l' @ rest) = 0x31 # rest"
    using d by (auto simp: dropWhile_append1)
  then have "ws_one_eol (l' @ rest)"
    using assms(2) by (rule ws_one_eol_dropWhile)
  then show ?thesis
    by (simp add: index1_here_def l lit_def)
qed

lemma index1_line_matches:
  "\<exists>l\<in>set (lines_of s). is_index1_line l \<Longrightarrow> matches_index1 s"
  unfolding matches_index1_def
proof (induction s rule: line_induct)
  case (single l)
  then show ?case
    using index1_here_line [of l "[]"] by (simp add: lines_of_single exists_line_start_single)
next
  case (cons l t s)
  then show ?case
    using index1_here_line [of l "t # s"]
    by (auto simp: lines_of_line_Cons exists_line_start_line)
qed

lemma index1_lines_pos: "1 \<le> index1_lines s \<longleftrightarrow> (\<exists>l\<in>set (lines_of s). is_index1_line l)"
  by (auto simp: index1_lines_def Suc_le_eq length_greater_0_conv filter_empty_conv)

lemma is_index1_line_X1: "is_index1_line (lit ''X:1'')"
  by (simp add: is_index1_line_def lit_def is_ws_def)

lemma index1_line_finish:
  assumes "\<not> matches_index1 s \<or> 1 \<le> index1_lines s"
  shows "\<exists>l\<in>set (lines_of (finish s)). is_index1_line l"
proof -
  have "\<exists>l\<in>set (lines_of s). is_index1_line l" if "matches_index1 s"
    using that assms index1_lines_pos by blast
  then have "\<exists>l\<in>set (lines_of (ensure_index s)). is_index1_line l"
    using is_index1_line_X1 by (auto simp: lines_of_ensure_index)
  moreover have "set (lines_of (ensure_index s)) \<subseteq> set (lines_of (finish s))"
    by (auto simp: finish_def lines_of_ensure_key lines_of_ensure_meter lines_of_ensure_tempo
        lines_of_ensure_content set_insert_line)
  ultimately show ?thesis by blast
qed

lemma matches_index1_with_title: "matches_index1 (snd (with_title s)) = matches_index1 s"
proof -
  have "matches_index1 (lit ''T:Untitled Composition'' @ 0x0A # s) = matches_index1 s"
    unfolding matches_index1_def
    by (subst exists_line_start_line [OF lit_not_lt(10) is_lt_LF])
       (simp add: index1_here_def lit_def)
  then show ?thesis
    by (simp add: with_title_def lit_split split: option.splits)
qed

lemma lines_kept_with_title: "set (lines_of s) \<subseteq> set (lines_of (snd (with_title s)))"
  by (auto simp: lines_of_with_title)


lemma title_lines_finish: "title_lines (finish s) = title_lines s"
  unfolding title_lines_def lines_with_def
  by (subst filter_lines_finish) (simp_all add: lit_def)

lemma titleMatch_first_line:
  assumes f: "find (prefix (lit ''T:'')) (lines_of s) = Some (lit ''T:'' @ sp @ t)"
    and sp: "\<forall>c\<in>set sp. is_ws c" and t: "t \<noteq> []" "\<not> is_ws (hd t)"
  shows "titleMatch s = Some t"
proof -
  from f obtain r where r: "find_line_start (lit ''T:'') True s = Some r"
    and l: "takeWhile not_lt r = sp @ t"
    by (auto simp: find_line_start_lines lit_not_lt lit_def)
  define r' where "r' = dropWhile not_lt r"
  have rr: "r = sp @ t @ r'"
    unfolding r'_def using l by (metis append.assoc takeWhile_dropWhile_id)
  have tl: "\<forall>c\<in>set t. \<not> is_lt c"
    using l by (metis Un_iff set_append set_takeWhileD)
  have r': "takeWhile not_lt r' = []"
    unfolding r'_def by (metis dropWhile_eq_Nil_conv hd_dropWhile takeWhile.simps(1) takeWhile_eq_Nil_iff)
  from t obtain a t' where t': "t = a # t'" "\<not> is_ws a"
    by (cases t) auto
  have "dropWhile is_ws r = t @ r'"
    using sp t' by (simp add: rr dropWhile_append2)
  moreover have "takeWhile not_lt (t @ r') = t"
    using tl r' by (simp add: takeWhile_append2)
  ultimately show ?thesis
    by (simp add: titleMatch_def r)
qed

section \<open>The matchers and the patterns they stand for\<close>

text \<open>
  Each matcher accepts the texts its pattern accepts: \<open>rest_lf\<close> is \<^verbatim>\<open>.*\n\<close>,
  \<open>ws_rest_lf\<close> is \<^verbatim>\<open>\s*.*\n\<close>, \<open>ws_one_eol\<close> is \<^verbatim>\<open>\s*1$\<close>, and
  \<open>exists_line_start\<close> tries the start of the text (when \<open>bol\<close> holds) and every
  place behind a line terminator.
\<close>

lemma rest_lf_iff:
  "rest_lf s \<longleftrightarrow> (\<exists>d r. s = d @ 0x0A # r \<and> (\<forall>c\<in>set d. \<not> is_lt c))"
proof
  show "rest_lf s \<Longrightarrow> \<exists>d r. s = d @ 0x0A # r \<and> (\<forall>c\<in>set d. \<not> is_lt c)"
  proof (induction s)
    case Nil
    then show ?case by simp
  next
    case (Cons c cs)
    show ?case
    proof (cases "c = 0x0A")
      case True
      then have "c # cs = [] @ 0x0A # cs \<and> (\<forall>c\<in>set ([]::jsstring). \<not> is_lt c)" by simp
      then show ?thesis by blast
    next
      case False
      with Cons.prems have c: "\<not> is_lt c" and "rest_lf cs"
        by (auto split: if_splits)
      with Cons.IH obtain d r where "cs = d @ 0x0A # r" "\<forall>c\<in>set d. \<not> is_lt c" by blast
      with c have "c # cs = (c # d) @ 0x0A # r \<and> (\<forall>x\<in>set (c # d). \<not> is_lt x)" by simp
      then show ?thesis by blast
    qed
  qed
next
  assume "\<exists>d r. s = d @ 0x0A # r \<and> (\<forall>c\<in>set d. \<not> is_lt c)"
  then obtain d r where "s = d @ 0x0A # r" "\<forall>c\<in>set d. \<not> is_lt c" by blast
  then show "rest_lf s"
    by (induction d arbitrary: s) (auto simp: is_lt_LF)
qed

lemma ws_rest_lf_iff:
  "ws_rest_lf s \<longleftrightarrow>
     (\<exists>w d r. s = w @ d @ 0x0A # r \<and> (\<forall>c\<in>set w. is_ws c) \<and> (\<forall>c\<in>set d. \<not> is_lt c))"
proof
  show "ws_rest_lf s \<Longrightarrow>
    \<exists>w d r. s = w @ d @ 0x0A # r \<and> (\<forall>c\<in>set w. is_ws c) \<and> (\<forall>c\<in>set d. \<not> is_lt c)"
  proof (induction s)
    case Nil
    then show ?case by simp
  next
    case (Cons c cs)
    show ?case
    proof (cases "rest_lf (c # cs)")
      case True
      then obtain d r where "c # cs = [] @ d @ 0x0A # r" "\<forall>c\<in>set d. \<not> is_lt c"
        unfolding rest_lf_iff by auto
      then show ?thesis by (metis empty_iff list.set(1))
    next
      case False
      with Cons.prems have c: "is_ws c" and "ws_rest_lf cs"
        by (auto split: if_splits)
      with Cons.IH obtain w d r where
        "cs = w @ d @ 0x0A # r" "\<forall>c\<in>set w. is_ws c" "\<forall>c\<in>set d. \<not> is_lt c" by blast
      with c have "c # cs = (c # w) @ d @ 0x0A # r \<and> (\<forall>x\<in>set (c # w). is_ws x)
          \<and> (\<forall>c\<in>set d. \<not> is_lt c)" by simp
      then show ?thesis by blast
    qed
  qed
next
  assume "\<exists>w d r. s = w @ d @ 0x0A # r \<and> (\<forall>c\<in>set w. is_ws c) \<and> (\<forall>c\<in>set d. \<not> is_lt c)"
  then obtain w d r where
    "s = w @ d @ 0x0A # r" "\<forall>c\<in>set w. is_ws c" "\<forall>c\<in>set d. \<not> is_lt c" by blast
  then show "ws_rest_lf s"
  proof (induction w arbitrary: s)
    case Nil
    then have "rest_lf s" unfolding rest_lf_iff by auto
    then show ?case by (cases s) auto
  next
    case (Cons c w)
    then have "ws_rest_lf (w @ d @ 0x0A # r)" by simp
    with Cons show ?case by simp
  qed
qed

lemma ws_one_eol_iff:
  "ws_one_eol s \<longleftrightarrow>
     (\<exists>w r. s = w @ 0x31 # r \<and> (\<forall>c\<in>set w. is_ws c) \<and> (r = [] \<or> is_lt (hd r)))"
proof
  show "ws_one_eol s \<Longrightarrow>
    \<exists>w r. s = w @ 0x31 # r \<and> (\<forall>c\<in>set w. is_ws c) \<and> (r = [] \<or> is_lt (hd r))"
  proof (induction s)
    case Nil
    then show ?case by simp
  next
    case (Cons c cs)
    show ?case
    proof (cases "c = 0x31")
      case True
      with Cons.prems have "cs = [] \<or> is_lt (hd cs)"
        by (auto split: list.splits)
      with True have "c # cs = [] @ 0x31 # cs \<and> (\<forall>c\<in>set ([]::jsstring). is_ws c)
          \<and> (cs = [] \<or> is_lt (hd cs))" by simp
      then show ?thesis by blast
    next
      case False
      with Cons.prems have c: "is_ws c" and "ws_one_eol cs"
        by (auto split: if_splits)
      with Cons.IH obtain w r where
        "cs = w @ 0x31 # r" "\<forall>c\<in>set w. is_ws c" "r = [] \<or> is_lt (hd r)" by blast
      with c have "c # cs = (c # w) @ 0x31 # r \<and> (\<forall>x\<in>set (c # w). is_ws x)
          \<and> (r = [] \<or> is_lt (hd r))" by simp
      then show ?thesis by blast
    qed
  qed
next
  assume "\<exists>w r. s = w @ 0x31 # r \<and> (\<forall>c\<in>set w. is_ws c) \<and> (r = [] \<or> is_lt (hd r))"
  then obtain w r where
    "s = w @ 0x31 # r" "\<forall>c\<in>set w. is_ws c" "r = [] \<or> is_lt (hd r)" by blast
  then show "ws_one_eol s"
  proof (induction w arbitrary: s)
    case Nil
    then show ?case by (cases r) auto
  next
    case (Cons c w)
    then have "ws_one_eol (w @ 0x31 # r)" "is_ws c" by simp_all
    moreover from \<open>is_ws c\<close> have "c \<noteq> 0x31" by (auto simp: is_ws_def)
    ultimately show ?case using Cons.prems(1) by simp
  qed
qed

lemma exists_line_start_iff:
  "exists_line_start Q bol s \<longleftrightarrow>
     (bol \<and> Q s) \<or> (\<exists>p t r. s = p @ t # r \<and> is_lt t \<and> Q r)"
proof (induction s arbitrary: bol)
  case Nil
  then show ?case by simp
next
  case (Cons c cs)
  have "(\<exists>p t r. c # cs = p @ t # r \<and> is_lt t \<and> Q r) \<longleftrightarrow>
      (is_lt c \<and> Q cs) \<or> (\<exists>p t r. cs = p @ t # r \<and> is_lt t \<and> Q r)"
    by (auto simp: Cons_eq_append_conv)
  with Cons.IH [of "is_lt c"] show ?case by auto
qed

section \<open>Evaluating the normalizer\<close>

lemmas norm_eval =
  parseAbcResponse_def clean_def trim_def lit_def fence_def with_title_def titleMatch_def
  finish_def ensure_index_def matches_index1_def index1_here_def ensure_key_def
  ensure_meter_def ensure_tempo_def ensure_header_def matches_header_def header_here_def
  ensure_content_def has_content_def is_lt_def is_ws_def is_pitch_def default_title_def

lemma clean_Nil: "clean [] = []"
  by (simp add: clean_def trim_def)

lemma parse_doubled_lines:
  "parseAbcResponse (lit ''X:1\<newline>X:1\<newline>T:a\<newline>T:b\<newline>C|'') =
     \<lparr>title = lit ''a'',
      abcNotation = lit ''X:1\<newline>Q:1/4=120\<newline>M:4/4\<newline>K:C\<newline>X:1\<newline>T:a\<newline>T:b\<newline>C|''\<rparr>"
  by (simp add: norm_eval)

lemma parse_index_across_lines:
  "parseAbcResponse (lit ''X:\<newline>1'') =
     \<lparr>title = lit ''Untitled Composition'',
      abcNotation = lit ''T:Untitled Composition\<newline>X:\<newline>Q:1/4=120\<newline>M:4/4\<newline>K:C\<newline>1''\<rparr>"
  by (simp add: norm_eval)

lemma parse_index_only:
  "parseAbcResponse (lit ''X:1'') =
     \<lparr>title = lit ''Untitled Composition'',
      abcNotation = lit ''T:Untitled Composition\<newline>X:1\<newline>Q:1/4=120\<newline>M:4/4\<newline>K:C''\<rparr>"
  by (simp add: norm_eval)

lemma parse_index_only_again:
  "parseAbcResponse (lit ''T:Untitled Composition\<newline>X:1\<newline>Q:1/4=120\<newline>M:4/4\<newline>K:C'') =
     \<lparr>title = lit ''Untitled Composition'',
      abcNotation = lit ''T:Untitled Composition\<newline>X:1\<newline>K:C\<newline>Q:1/4=120\<newline>M:4/4\<newline>K:C''\<rparr>"
  by (simp add: norm_eval)

lemma parse_digits:
  "parseAbcResponse (lit ''123'') =
     \<lparr>title = lit ''Untitled Composition'',
      abcNotation = lit ''X:1\<newline>Q:1/4=120\<newline>M:4/4\<newline>K:C\<newline>T:Untitled Composition\<newline>123''\<rparr>"
  by (simp add: norm_eval)

lemma parse_empty_title_line:
  "parseAbcResponse (lit ''T:\<newline>K:C\<newline>CDE|'') =
     \<lparr>title = lit ''K:C'',
      abcNotation = lit ''X:1\<newline>Q:1/4=120\<newline>M:4/4\<newline>T:\<newline>K:C\<newline>CDE|''\<rparr>"
  by (simp add: norm_eval)

lemma clean_fenced:
  "clean (fence @ lit ''abc\<newline>T:My Song\<newline>T:Other\<newline>K:C\<newline>CDE|\<newline>'' @ fence) =
     lit ''T:My Song\<newline>T:Other\<newline>K:C\<newline>CDE|''"
  by (simp add: clean_def trim_def lit_def fence_def is_ws_def)

lemma lines_of_fenced:
  "lines_of (lit ''T:My Song\<newline>T:Other\<newline>K:C\<newline>CDE|'') =
     [lit ''T:My Song'', lit ''T:Other'', lit ''K:C'', lit ''CDE|'']"
  by (simp add: lit_def is_lt_def)

section \<open>The claims about the normalizer\<close>

text \<open>
  Claim C1, as the code has it. \<^verbatim>\<open>parseAbcResponse\<close> returns for every text, the empty
  one included, and the body it returns has at least one index line, at least one title
  line, at least one key line, at least one meter line, at least one tempo line and a
  bar separator or a pitch letter. Lines are never removed, so none of the counts is
  bounded by one. The body has an index line with value 1 whenever the normalizer adds the
  index line itself (the cleaned text does not pass its test for one) or the cleaned text
  has such a line written on one line.
\<close>

theorem parseAbcResponse_structure:
  "1 \<le> index_lines (abcNotation (parseAbcResponse raw)) \<and>
   1 \<le> title_lines (abcNotation (parseAbcResponse raw)) \<and>
   1 \<le> key_lines (abcNotation (parseAbcResponse raw)) \<and>
   1 \<le> meter_lines (abcNotation (parseAbcResponse raw)) \<and>
   1 \<le> tempo_lines (abcNotation (parseAbcResponse raw)) \<and>
   has_content (abcNotation (parseAbcResponse raw)) \<and>
   (\<not> matches_index1 (clean raw) \<or> 1 \<le> index1_lines (clean raw) \<longrightarrow>
      1 \<le> index1_lines (abcNotation (parseAbcResponse raw)))"
proof -
  define c where "c = snd (with_title (clean raw))"
  have b: "abcNotation (parseAbcResponse raw) = finish c"
    by (simp add: parseAbcResponse_def c_def)
  have "\<exists>l\<in>set (lines_of c). prefix (lit ''T:'') l"
    unfolding c_def by (rule title_line_with_title)
  then have t: "\<exists>l\<in>set (lines_of (finish c)). prefix (lit ''T:'') l"
    using lines_kept_finish [of c] by blast
  have i: "\<exists>l\<in>set (lines_of (finish c)). is_index1_line l"
    if "\<not> matches_index1 (clean raw) \<or> 1 \<le> index1_lines (clean raw)"
  proof (rule index1_line_finish)
    from that show "\<not> matches_index1 c \<or> 1 \<le> index1_lines c"
      using lines_kept_with_title [of "clean raw"]
      unfolding c_def matches_index1_with_title index1_lines_pos by blast
  qed
  have content: "has_content (finish c)"
    by (simp add: finish_def has_content_ensure_content)
  have "1 \<le> index_lines (finish c)" "1 \<le> key_lines (finish c)"
    "1 \<le> meter_lines (finish c)" "1 \<le> tempo_lines (finish c)"
    unfolding index_lines_def key_lines_def meter_lines_def tempo_lines_def lines_with_pos
    by (rule header_lines_finish)+
  moreover have "1 \<le> title_lines (finish c)"
    unfolding title_lines_def lines_with_pos by (rule t)
  moreover have "1 \<le> index1_lines (finish c)"
    if "\<not> matches_index1 (clean raw) \<or> 1 \<le> index1_lines (clean raw)"
    unfolding index1_lines_pos using that by (rule i)
  ultimately show ?thesis
    unfolding b using content by simp
qed

theorem parseAbcResponse_structure_witness:
  "\<not> matches_index1 (clean []) \<and>
   1 \<le> index_lines (abcNotation (parseAbcResponse [])) \<and>
   1 \<le> title_lines (abcNotation (parseAbcResponse [])) \<and>
   1 \<le> key_lines (abcNotation (parseAbcResponse [])) \<and>
   1 \<le> meter_lines (abcNotation (parseAbcResponse [])) \<and>
   1 \<le> tempo_lines (abcNotation (parseAbcResponse [])) \<and>
   has_content (abcNotation (parseAbcResponse [])) \<and>
   1 \<le> index1_lines (abcNotation (parseAbcResponse []))"
proof -
  have h: "\<not> matches_index1 (clean [])"
    by (simp add: clean_Nil matches_index1_def index1_here_def lit_def)
  with parseAbcResponse_structure [of "[]"] show ?thesis by blast
qed

text \<open>
  A text with two index lines and two title lines keeps them all, so the body has
  neither exactly one index line with value 1 nor exactly one title line.
\<close>

theorem parseAbcResponse_keeps_doubled_lines:
  "index1_lines (abcNotation (parseAbcResponse
      (lit ''X:1\<newline>X:1\<newline>T:a\<newline>T:b\<newline>C|''))) = 2 \<and>
   title_lines (abcNotation (parseAbcResponse
      (lit ''X:1\<newline>X:1\<newline>T:a\<newline>T:b\<newline>C|''))) = 2"
  by (simp add: parse_doubled_lines)
     (simp add: index1_lines_def is_index1_line_def title_lines_def lines_with_def lit_def
       is_lt_def is_ws_def)

text \<open>
  Where the index test is met across a line break, the key line goes between the tag and
  the value, and the body has no index line with value 1 and does not pass the test any
  more.
\<close>

lemma index_value_lost_across_lines:
  "matches_index1 (clean (lit ''X:\<newline>1'')) \<and>
   index1_lines (abcNotation (parseAbcResponse (lit ''X:\<newline>1''))) = 0 \<and>
   \<not> matches_index1 (abcNotation (parseAbcResponse (lit ''X:\<newline>1'')))"
  by (simp add: parse_index_across_lines)
     (simp add: clean_def trim_def matches_index1_def index1_here_def index1_lines_def
       is_index1_line_def lit_def fence_def is_lt_def is_ws_def)

text \<open>
  Claim C3 at the text \<^verbatim>\<open>X:1\<close>: the body of the first run ends with the key line, with
  no line feed behind it, so the key test of the second run fails and the second run
  inserts a second key line.
\<close>

theorem second_run_inserts_key_line:
  "abcNotation (parseAbcResponse (lit ''X:1'')) =
     lit ''T:Untitled Composition\<newline>X:1\<newline>Q:1/4=120\<newline>M:4/4\<newline>K:C'' \<and>
   abcNotation (parseAbcResponse (abcNotation (parseAbcResponse (lit ''X:1'')))) =
     lit ''T:Untitled Composition\<newline>X:1\<newline>K:C\<newline>Q:1/4=120\<newline>M:4/4\<newline>K:C''"
  by (simp add: parse_index_only parse_index_only_again)

text \<open>
  Claim C4 at the text \<^verbatim>\<open>123\<close>, which has no bar separator and no pitch letter: the
  content test reads the header lines the normalizer has just inserted, finds their
  letters, and nothing is appended.
\<close>

theorem no_placeholder_for_digits:
  "\<not> has_content (lit ''123'') \<and>
   abcNotation (parseAbcResponse (lit ''123'')) =
     lit ''X:1\<newline>Q:1/4=120\<newline>M:4/4\<newline>K:C\<newline>T:Untitled Composition\<newline>123''"
  by (simp add: parse_digits) (simp add: has_content_def lit_def is_pitch_def)

text \<open>
  Claim C8. When the first title line of the cleaned text is \<^verbatim>\<open>T:\<close>, white space and a
  text \<open>t\<close> that is not empty and does not start with white space, the title is \<open>t\<close>,
  the body is made from the cleaned text as it is, and the body has as many title lines
  as the cleaned text: no default title line is added. Later title lines play no role.
\<close>

theorem title_line_extracted:
  assumes "find (prefix (lit ''T:'')) (lines_of (clean raw)) = Some (lit ''T:'' @ sp @ t)"
    and "\<forall>c\<in>set sp. is_ws c" and "t \<noteq> []" and "\<not> is_ws (hd t)"
  shows "title (parseAbcResponse raw) = t \<and>
    abcNotation (parseAbcResponse raw) = finish (clean raw) \<and>
    title_lines (abcNotation (parseAbcResponse raw)) = title_lines (clean raw)"
proof -
  have "titleMatch (clean raw) = Some t"
    using assms by (rule titleMatch_first_line)
  with \<open>t \<noteq> []\<close> have "with_title (clean raw) = (t, clean raw)"
    by (simp add: with_title_def)
  then show ?thesis
    by (simp add: parseAbcResponse_def title_lines_finish)
qed

theorem title_line_extracted_witness:
  "find (prefix (lit ''T:''))
     (lines_of (clean (fence @ lit ''abc\<newline>T:My Song\<newline>T:Other\<newline>K:C\<newline>CDE|\<newline>'' @ fence))) =
     Some (lit ''T:'' @ [] @ lit ''My Song'') \<and>
   title (parseAbcResponse
     (fence @ lit ''abc\<newline>T:My Song\<newline>T:Other\<newline>K:C\<newline>CDE|\<newline>'' @ fence)) = lit ''My Song'' \<and>
   title_lines (abcNotation (parseAbcResponse
     (fence @ lit ''abc\<newline>T:My Song\<newline>T:Other\<newline>K:C\<newline>CDE|\<newline>'' @ fence))) = 2"
proof -
  let ?raw = "fence @ lit ''abc\<newline>T:My Song\<newline>T:Other\<newline>K:C\<newline>CDE|\<newline>'' @ fence"
  have h1: "find (prefix (lit ''T:'')) (lines_of (clean ?raw)) =
      Some (lit ''T:'' @ [] @ lit ''My Song'')"
    by (simp add: clean_fenced lines_of_fenced) (simp add: lit_def)
  have h2: "\<forall>c\<in>set ([]::jsstring). is_ws c" by simp
  have h3: "lit ''My Song'' \<noteq> []" by (simp add: lit_def)
  have h4: "\<not> is_ws (hd (lit ''My Song''))" by (simp add: lit_def is_ws_def)
  have n: "title_lines (clean ?raw) = 2"
    by (simp add: clean_fenced lines_of_fenced title_lines_def lines_with_def) (simp add: lit_def)
  from title_line_extracted [OF h1 h2 h3 h4]
  have t: "title (parseAbcResponse ?raw) = lit ''My Song''"
    and k: "title_lines (abcNotation (parseAbcResponse ?raw)) = title_lines (clean ?raw)"
    by blast+
  show ?thesis
  proof (intro conjI)
    show "find (prefix (lit ''T:'')) (lines_of (clean ?raw)) = Some (lit ''T:'' @ [] @ lit ''My Song'')"
      by (rule h1)
    show "title (parseAbcResponse ?raw) = lit ''My Song''"
      by (rule t)
    show "title_lines (abcNotation (parseAbcResponse ?raw)) = 2"
      using k n by (simp only:)
  qed
qed

text \<open>
  Claim C10 at a text whose first title line is empty and is followed by other lines: the
  white space the title pattern skips includes the line break, so the title is taken from
  the next line, and no default title line is added.
\<close>

theorem empty_title_line_takes_next_line:
  "parseAbcResponse (lit ''T:\<newline>K:C\<newline>CDE|'') =
     \<lparr>title = lit ''K:C'',
      abcNotation = lit ''X:1\<newline>Q:1/4=120\<newline>M:4/4\<newline>T:\<newline>K:C\<newline>CDE|''\<rparr>"
  by (rule parse_empty_title_line)

section \<open>The claim about the service\<close>

lemma module_init_with_key: "k \<noteq> [] \<Longrightarrow> module_init (Some k) = Inr k"
  by (simp add: module_init_def)

text \<open>
  Claim C9. When the key is not set (or is the empty string), the body of the service
  module throws when the module is loaded, and every request of a program that loads the
  module ends with that error: none is answered without the key.
\<close>

theorem missing_key_is_fatal:
  assumes "API_KEY = None \<or> API_KEY = Some []"
  shows "module_init API_KEY = Inl missing_key \<and>
    request API_KEY generateContent prompt = Inl missing_key"
  using assms by (auto simp: module_init_def request_def)

theorem missing_key_is_fatal_witness:
  "module_init None = Inl missing_key \<and>
   request None (\<lambda>p. Returns (Some (lit ''X:1''))) (lit ''a waltz'') = Inl missing_key"
  using missing_key_is_fatal [of None "\<lambda>p. Returns (Some (lit ''X:1''))" "lit ''a waltz''"]
  by simp

section \<open>The claims about the display component\<close>

lemma close_last_ctx: "close_ctx (length cs) (cs @ [Open]) = cs @ [Closed]"
  by (simp add: close_ctx_def)

lemma song_notation_not_empty: "abcNotation song \<noteq> []"
  by (simp add: song_def lit_def)

lemma effect_guard_mounted: "effect_guard mounted"
  by (simp add: effect_guard_def mounted_def song_notation_not_empty)

text \<open>
  Claim C5. When the effect runs (the library is loaded, there is notation, the
  containers are mounted) and \<^verbatim>\<open>renderAbc\<close> returns nothing or an empty list, the run
  ends with the visual error, no promise chain is started, the synthesizer's constructor
  has not been called and no audio context has been created.
\<close>

theorem empty_visual_result_is_visual_error:
  assumes "effect_guard d"
    and "renderAbc lib = Returns None \<or> renderAbc lib = Returns (Some [])"
  shows "renderError (render_effect lib d) = Some visual_error \<and>
    snd (effect_start lib d) = None \<and>
    synth_constructions (render_effect lib d) = synth_constructions d \<and>
    contexts (render_effect lib d) = contexts d"
  using assms by (auto simp: render_effect_def effect_start_def Let_def)

theorem empty_visual_result_is_visual_error_witness:
  "effect_guard mounted \<and>
   renderError (render_effect (lib_ok\<lparr>renderAbc := Returns (Some [])\<rparr>) mounted) = Some visual_error \<and>
   synth_constructions (render_effect (lib_ok\<lparr>renderAbc := Returns (Some [])\<rparr>) mounted) = 0"
  using empty_visual_result_is_visual_error
    [of mounted "lib_ok\<lparr>renderAbc := Returns (Some [])\<rparr>", OF effect_guard_mounted]
  by (simp add: effect_guard_mounted) (simp add: mounted_def)

text \<open>
  Claim C2, as the code has it. When the score has been rendered and the initialization
  or the priming fails, the run ends with the audio error, whose message carries the text
  of the failure, and the audio context of the run is closed; the error box is shown in
  the place of the sheet-music container, so the rendered score is not displayed any more.
\<close>

theorem audio_failure_replaces_score:
  assumes "effect_guard d" and "renderAbc lib = Returns (Some vs)" and "vs \<noteq> []"
    and "createSynth lib = Returns ()" and "newAudioContext lib = Returns ()"
    and "init lib = Returns (Rejected err) \<or>
      init lib = Returns Resolved \<and> (prime lib = Returns (Rejected err) \<or> prime lib = Throws err)"
  shows "visualHTML (fst (effect_start lib d)) = vs \<and>
    renderError (render_effect lib d) = Some (audio_error err) \<and>
    suffix (error_text err) (audio_error err) \<and>
    view (render_effect lib d) = ErrorBox (audio_error err) \<and>
    contexts (render_effect lib d) = contexts d @ [Closed]"
  using assms
  by (auto simp: render_effect_def effect_start_def effect_settle_def chain_failure_def
      view_def audio_error_def close_last_ctx suffix_def Let_def)

theorem audio_failure_replaces_score_witness:
  "effect_guard mounted \<and>
   view (render_effect (lib_ok\<lparr>init := Returns (Rejected (js_Error (lit ''blocked'')))\<rparr>) mounted) =
     ErrorBox (audio_error (js_Error (lit ''blocked''))) \<and>
   contexts (render_effect (lib_ok\<lparr>init := Returns (Rejected (js_Error (lit ''blocked'')))\<rparr>) mounted) =
     [Closed]"
  using audio_failure_replaces_score
    [of mounted "lib_ok\<lparr>init := Returns (Rejected (js_Error (lit ''blocked'')))\<rparr>" "[1]"
      "js_Error (lit ''blocked'')", OF effect_guard_mounted]
  by (simp add: effect_guard_mounted) (simp add: lib_ok_def mounted_def)

text \<open>
  With a score of one visual object rendered and the priming rejected, what is shown at
  the end is the error box, not the score.
\<close>

theorem audio_failure_hides_score:
  "visualHTML (fst (effect_start
      (lib_ok\<lparr>prime := Returns (Rejected (js_Error (lit ''no audio'')))\<rparr>) mounted)) = [1] \<and>
   view (render_effect
      (lib_ok\<lparr>prime := Returns (Rejected (js_Error (lit ''no audio'')))\<rparr>) mounted) =
     ErrorBox (audio_error (js_Error (lit ''no audio'')))"
  by (simp add: render_effect_def effect_start_def effect_settle_def chain_failure_def
      view_def effect_guard_mounted lib_ok_def Let_def)

text \<open>
  Claim C6, as the code has it. The export does not look at how far the render pipeline
  has got, and it has no error for a pipeline that is not ready. It yields a file exactly
  when there is notation, the library is loaded, no render error is shown, and the
  library's own rendering, initialization and extraction of the bytes succeed; the bytes
  are the ones the library returns, and the file name is the title (or \<^verbatim>\<open>untitled\<close>)
  followed by \<^verbatim>\<open>.mid\<close>. In every other case the result is an alert.
\<close>

theorem export_midi_succeeds_iff:
  "fst (handleDownloadMidi lib d) = Download midi f \<longleftrightarrow>
     abcNotation (musicData d) \<noteq> [] \<and> abcjs_loaded d \<and> renderError d = None \<and>
     (\<exists>vs. renderAbc lib = Returns (Some vs) \<and> vs \<noteq> []) \<and>
     createSynth lib = Returns () \<and> newAudioContext lib = Returns () \<and>
     init lib = Returns Resolved \<and> getMidiFile lib = Returns midi \<and>
     f = (if title (musicData d) \<noteq> [] then title (musicData d) else lit ''untitled'')
           @ lit ''.mid''"
  by (auto simp: handleDownloadMidi_def export_failed_def Let_def
      split: outcome.splits settled.splits option.splits)

theorem export_midi_succeeds_iff_witness:
  "\<not> is_ready mounted \<and>
   fst (handleDownloadMidi lib_ok mounted) = Download [0x4D, 0x54, 0x68, 0x64] (lit ''Song.mid'')"
  using export_midi_succeeds_iff [of lib_ok mounted "[0x4D, 0x54, 0x68, 0x64]" "lit ''Song.mid''"]
  by (simp add: is_ready_def mounted_def lib_ok_def song_def lit_def)

text \<open>
  While the promise chain of the effect is still pending, the pipeline is not ready, and
  the export yields a file all the same.
\<close>

theorem export_before_ready_succeeds:
  "\<not> is_ready (fst (effect_start lib_ok mounted)) \<and>
   fst (handleDownloadMidi lib_ok (fst (effect_start lib_ok mounted))) =
     Download [0x4D, 0x54, 0x68, 0x64] (lit ''Song.mid'')"
  by (simp add: is_ready_def effect_start_def effect_guard_mounted handleDownloadMidi_def
      lib_ok_def Let_def)
     (simp add: mounted_def song_def lit_def)

text \<open>
  Claim C7 at a resize after a successful run: the effect has no cleanup, so the second
  run creates its audio context while the one of the first run is still open.
\<close>

theorem resize_leaves_context_open:
  "contexts (render_effect lib_ok mounted) = [Open] \<and>
   contexts (on_resize 700 lib_ok (render_effect lib_ok mounted)) = [Open, Open]"
  by (simp add: on_resize_def calculateStaffWidth_def render_effect_def effect_start_def
      effect_settle_def chain_failure_def effect_guard_def lib_ok_def Let_def)
     (simp add: mounted_def song_notation_not_empty)

end
